theory Spec2Isabelle
  imports Complex_Main "HOL-Library.Word" "HOL-Library.Sublist" "HOL-Library.AList"
begin

section \<open>JavaScript strings\<close>

text \<open>
  A JavaScript string is a sequence of UTF-16 code units; \<open>length\<close>, \<open>startsWith\<close>,
  \<open>endsWith\<close>, \<open>includes\<close>, \<open>substring\<close>, \<open>trim\<close> and a regular expression without
  the \<open>u\<close> flag all work on code units. A string literal of the source is written
  \<open>js ''...''\<close>.
\<close>

type_synonym jsstring = "16 word list"

definition js :: "string \<Rightarrow> jsstring" where
  "js s = map of_char s"

text \<open>
  \<open>String.prototype.trim\<close> and the regular-expression class \<open>\s\<close> remove the same code
  units: WhiteSpace and LineTerminator of ECMAScript.
\<close>

definition isWhiteSpace :: "16 word \<Rightarrow> bool" where
  "isWhiteSpace c =
     (c \<in> set [0x9, 0xA, 0xB, 0xC, 0xD, 0x20, 0xA0, 0x1680, 0x2028, 0x2029, 0x202F, 0x205F,
               0x3000, 0xFEFF]
      \<or> (0x2000 \<le> c \<and> c \<le> 0x200A))"

definition trim :: "jsstring \<Rightarrow> jsstring" where
  "trim s = rev (dropWhile isWhiteSpace (rev (dropWhile isWhiteSpace s)))"

definition startsWith :: "jsstring \<Rightarrow> jsstring \<Rightarrow> bool" where
  "startsWith s p = (take (length p) s = p)"

definition endsWith :: "jsstring \<Rightarrow> jsstring \<Rightarrow> bool" where
  "endsWith s p = (length p \<le> length s \<and> drop (length s - length p) s = p)"

fun includes_js :: "jsstring \<Rightarrow> jsstring \<Rightarrow> bool" where
  "includes_js [] p = (p = [])"
| "includes_js (c # s) p = (startsWith (c # s) p \<or> includes_js s p)"

section \<open>Response cleaning (analyzeContentWithStatement, lines 320--337)\<close>

text \<open>
  \<open>s.replace(/\s*```$/, '')\<close>: the pattern matches only when the string ends with three
  backticks, and the leftmost match then starts at the first code unit of the white
  space run that precedes them.
\<close>

definition stripTrailingFence :: "jsstring \<Rightarrow> jsstring" where
  "stripTrailingFence s =
     (if endsWith s (js ''```'') then rev (dropWhile isWhiteSpace (drop 3 (rev s))) else s)"

text \<open>
  Lines 322--326. In the first branch the string starts with \<open>```json\<close>, so
  \<open>replace(/^```json\s*/, '')\<close> removes these seven code units and the white space after
  them; the second branch does the same for the three backticks alone.
\<close>

definition stripCodeFences :: "jsstring \<Rightarrow> jsstring" where
  "stripCodeFences s =
     (if startsWith s (js ''```json'') then
        stripTrailingFence (dropWhile isWhiteSpace (drop 7 s))
      else if startsWith s (js ''```'') then
        stripTrailingFence (dropWhile isWhiteSpace (drop 3 s))
      else s)"

text \<open>Line 329: the test that guards the warning "JSON response appears to be truncated".\<close>

definition appearsTruncated :: "jsstring \<Rightarrow> bool" where
  \<open>appearsTruncated c = (\<not> endsWith c (js ''}'') \<and> \<not> endsWith c (js ''"}''))\<close>

definition recommendationsSuffix :: jsstring where
  \<open>recommendationsSuffix =
     js ''", "recommendations": "Please review the detailed analysis above"}''\<close>

text \<open>Lines 329--337.\<close>

definition repairTruncation :: "jsstring \<Rightarrow> jsstring" where
  \<open>repairTruncation c =
     (if appearsTruncated c then
        (if includes_js c (js ''"summary":'') \<and> \<not> includes_js c (js ''"recommendations":'') then
           c @ recommendationsSuffix
         else if \<not> endsWith c (js ''}'') then c @ js ''}''
         else c)
      else c)\<close>

text \<open>The value of the variable \<open>cleanedResponse\<close> at line 338.\<close>

definition cleanedResponse :: "jsstring \<Rightarrow> jsstring" where
  "cleanedResponse analysisText = repairTruncation (stripCodeFences (trim analysisText))"

section \<open>JavaScript values and exceptions\<close>

text \<open>
  The values \<open>JSON.parse\<close> can return, and the record literals the source builds. A
  number is a finite double and is kept as the rational it denotes. An object is the
  list of its own properties in insertion order; an array carries its elements and
  the named properties assigned to it.
\<close>

datatype jsvalue =
    JNull
  | JBool bool
  | JNum rat
  | JStr jsstring
  | JArr "jsvalue list" "(jsstring \<times> jsvalue) list"
  | JObj "(jsstring \<times> jsvalue) list"

text \<open>
  A thrown value: the two errors the engine raises here, \<open>new Error(message)\<close>, and
  \<open>ErrorFrom prefix e\<close> for \<open>new Error(prefix + e.message)\<close>.
\<close>

datatype exn = SyntaxError | TypeError | Error jsstring | ErrorFrom jsstring exn

text \<open>
  Reading \<open>v.k\<close> for a key that no built-in prototype defines (the source reads
  \<open>question_analysis\<close> only): \<open>null\<close> throws a TypeError, a primitive has no such
  property, an object or array is searched. \<open>None\<close> is \<open>undefined\<close>.
\<close>

fun getProp :: "jsvalue \<Rightarrow> jsstring \<Rightarrow> exn + jsvalue option" where
  "getProp JNull k = Inl TypeError"
| "getProp (JObj ps) k = Inr (map_of ps k)"
| "getProp (JArr xs ps) k = Inr (map_of ps k)"
| "getProp v k = Inr None"

text \<open>The truth value JavaScript gives a value in \<open>!v\<close> and \<open>if (v)\<close>.\<close>

fun truthy :: "jsvalue option \<Rightarrow> bool" where
  "truthy None = False"
| "truthy (Some JNull) = False"
| "truthy (Some (JBool b)) = b"
| "truthy (Some (JNum n)) = (n \<noteq> 0)"
| "truthy (Some (JStr s)) = (s \<noteq> [])"
| "truthy (Some v) = True"

text \<open>
  The assignment \<open>v.k = w\<close> in strict code (the body of a class is strict): on an
  object or array the property is updated where it stands or added last; on \<open>null\<close>
  and on a primitive it throws a TypeError.
\<close>

fun setProp :: "jsvalue \<Rightarrow> jsstring \<Rightarrow> jsvalue \<Rightarrow> exn + jsvalue" where
  "setProp (JObj ps) k w = Inr (JObj (AList.update k w ps))"
| "setProp (JArr xs ps) k w = Inr (JArr xs (AList.update k w ps))"
| "setProp v k w = Inl TypeError"

section \<open>Structured response recovery\<close>

text \<open>
  \<open>JSON.parse\<close> is the language's built-in; the functions below take it as the
  parameter \<open>JSON_parse\<close>, which returns the parsed value or the exception thrown.
\<close>

type_synonym json_parse = "jsstring \<Rightarrow> exn + jsvalue"

subsection \<open>analyzeContent, lines 193--209\<close>

text \<open>The record of lines 201--208.\<close>

definition analyzeContent_fallback :: "jsstring \<Rightarrow> jsvalue" where
  "analyzeContent_fallback analysisText =
     JObj [(js ''score'', JNum 0),
           (js ''subject'', JStr (js ''Unknown'')),
           (js ''errors'', JArr [] []),
           (js ''corrections'', JArr [] []),
           (js ''summary'', JStr analysisText),
           (js ''raw_response'', JStr analysisText)]"

text \<open>The inner \<open>try\<close>/\<open>catch\<close> of lines 194--209.\<close>

definition analyzeContent_recover :: "json_parse \<Rightarrow> jsstring \<Rightarrow> exn + jsvalue" where
  "analyzeContent_recover JSON_parse analysisText =
     (case JSON_parse analysisText of
        Inr parsed \<Rightarrow> Inr parsed
      | Inl parseError \<Rightarrow> Inr (analyzeContent_fallback analysisText))"

text \<open>
  Lines 187--214, from the message content on: the guard of line 189 rejects the
  empty string, and the outer \<open>catch\<close> replaces whatever was thrown.
\<close>

definition analyzeContent :: "json_parse \<Rightarrow> jsstring \<Rightarrow> exn + jsvalue" where
  "analyzeContent JSON_parse analysisText =
     (case (if analysisText = [] then Inl (Error (js ''Empty response from AI service''))
            else analyzeContent_recover JSON_parse analysisText) of
        Inr analysis \<Rightarrow> Inr analysis
      | Inl error \<Rightarrow> Inl (Error (js ''Failed to analyze content'')))"

subsection \<open>analyzeContentWithStatement, lines 339--364\<close>

text \<open>The body of the \<open>try\<close> block, lines 341--348.\<close>

definition parsedAnalysis :: "json_parse \<Rightarrow> jsstring \<Rightarrow> exn + jsvalue" where
  "parsedAnalysis JSON_parse cleaned =
     (case JSON_parse cleaned of
        Inl e \<Rightarrow> Inl e
      | Inr parsed \<Rightarrow>
          (case getProp parsed (js ''question_analysis'') of
             Inl e \<Rightarrow> Inl e
           | Inr q \<Rightarrow>
               if \<not> truthy q then setProp parsed (js ''question_analysis'') (JArr [] [])
               else Inr parsed))"

text \<open>The record of lines 355--363.\<close>

definition analyzeContentWithStatement_fallback :: "jsstring \<Rightarrow> jsvalue" where
  "analyzeContentWithStatement_fallback analysisText =
     JObj [(js ''overall_score'', JNum 0),
           (js ''subject'', JStr (js ''Unknown'')),
           (js ''statement_used'', JBool True),
           (js ''question_analysis'', JArr [] []),
           (js ''summary'',
              JStr (js ''Analysis completed but formatting issues occurred. Please review manually.'')),
           (js ''recommendations'', JStr (js ''Please review the analysis manually'')),
           (js ''raw_response'', JStr analysisText)]"

text \<open>Lines 320--364: cleaning, then the \<open>try\<close>/\<open>catch\<close> around parsing.\<close>

definition analyzeContentWithStatement_recover :: "json_parse \<Rightarrow> jsstring \<Rightarrow> exn + jsvalue" where
  "analyzeContentWithStatement_recover JSON_parse analysisText =
     (case parsedAnalysis JSON_parse (cleanedResponse analysisText) of
        Inr parsed \<Rightarrow> Inr parsed
      | Inl parseError \<Rightarrow> Inr (analyzeContentWithStatement_fallback analysisText))"

text \<open>Lines 314--369, from the message content on, with the guard of line 316.\<close>

definition analyzeContentWithStatement :: "json_parse \<Rightarrow> jsstring \<Rightarrow> exn + jsvalue" where
  "analyzeContentWithStatement JSON_parse analysisText =
     (case (if analysisText = [] then Inl (Error (js ''Empty response from AI service''))
            else analyzeContentWithStatement_recover JSON_parse analysisText) of
        Inr analysis \<Rightarrow> Inr analysis
      | Inl error \<Rightarrow> Inl (Error (js ''Failed to analyze content with statement context'')))"

section \<open>Document normalisation (services/fileProcessor.js)\<close>

subsection \<open>The libraries the file processor calls\<close>

text \<open>
  A Node \<open>Buffer\<close> is a sequence of bytes. The libraries are parameters of the model:
  each returns its result or the exception it throws. Every call made is recorded, in
  order, in a list of calls that the functions return beside their result.
\<close>

type_synonym buffer = "8 word list"

text \<open>
  \<open>sharp(input)\<close> followed by an optional \<open>resize(w, h, {fit: 'inside',
  withoutEnlargement: true})\<close>, by \<open>jpeg({quality: q})\<close> and by \<open>toBuffer()\<close>. The input
  is a file path, a buffer, or the buffer made from a string (\<open>Buffer.from(svg)\<close>).
\<close>

datatype sharp_source = SharpFile jsstring | SharpBuffer buffer | SharpString jsstring

datatype sharp_resize = Inside_withoutEnlargement nat nat

type_synonym sharp = "sharp_source \<Rightarrow> sharp_resize option \<Rightarrow> nat \<Rightarrow> exn + buffer"

text \<open>
  \<open>convert(pageNum, {responseType: "buffer"})\<close> of pdf2pic: it throws, or returns a
  result; \<open>None\<close> is a result that is falsy or has no buffer (line 117).
\<close>

type_synonym convert = "nat \<Rightarrow> exn + buffer option"

datatype call = Call_fromPath | Call_convert nat | Call_sharp | Call_readFileSync | Call_pdfParse

text \<open>
  \<open>env_pdf2pic\<close> is \<open>None\<close> when the module could not be loaded (lines 7--12), and
  otherwise its \<open>fromPath\<close>, called with the options of lines 97--104.
  \<open>env_pdfParse\<close> returns the \<open>text\<close> field of the parsed data, \<open>None\<close> when the field
  is missing.
\<close>

record env =
  env_pdf2pic :: "(jsstring \<Rightarrow> exn + convert) option"
  env_sharp :: sharp
  env_readFileSync :: "jsstring \<Rightarrow> exn + buffer"
  env_pdfParse :: "buffer \<Rightarrow> exn + jsstring option"

subsection \<open>String helpers\<close>

text \<open>\<open>s.substring(a, b)\<close>: both indices are clamped to the length, and swapped if needed.\<close>

definition substring :: "jsstring \<Rightarrow> nat \<Rightarrow> nat \<Rightarrow> jsstring" where
  "substring s a b =
     (let a' = min a (length s); b' = min b (length s)
      in take (max a' b' - min a' b') (drop (min a' b') s))"

text \<open>\<open>s.replace(/[...]/g, '')\<close> for a character class, and \<open>s.replace(/c/g, rep)\<close>.\<close>

definition removeAll_js :: "(16 word \<Rightarrow> bool) \<Rightarrow> jsstring \<Rightarrow> jsstring" where
  "removeAll_js cls s = filter (\<lambda>c. \<not> cls c) s"

definition replaceAll_js :: "16 word \<Rightarrow> jsstring \<Rightarrow> jsstring \<Rightarrow> jsstring" where
  "replaceAll_js c rep s = concat (map (\<lambda>x. if x = c then rep else [x]) s)"

text \<open>The decimal digits of a number, as a template literal prints it.\<close>

fun toString_nat :: "nat \<Rightarrow> jsstring" where
  "toString_nat n =
     (if n < 10 then [of_nat (48 + n)]
      else toString_nat (n div 10) @ [of_nat (48 + n mod 10)])"

definition nl :: jsstring where
  "nl = [0x0A]"

subsection \<open>createTextImage, lines 191--240\<close>

text \<open>The character classes of lines 199 and 202.\<close>

definition controlChars :: "16 word \<Rightarrow> bool" where
  "controlChars c = (c \<le> 0x08 \<or> c = 0x0B \<or> c = 0x0C \<or> (0x0E \<le> c \<and> c \<le> 0x1F) \<or> c = 0x7F)"

definition controlChars2 :: "16 word \<Rightarrow> bool" where
  "controlChars2 c = (c \<le> 0x08 \<or> (0x0B \<le> c \<and> c \<le> 0x0C) \<or> (0x0E \<le> c \<and> c \<le> 0x1F))"

text \<open>Lines 197--210.\<close>

definition sanitizedText :: "jsstring \<Rightarrow> jsstring" where
  \<open>sanitizedText text =
     substring
       (replaceAll_js 0x27 (js ''&apos;'')
         (replaceAll_js 0x22 (js ''&quot;'')
           (replaceAll_js 0x3E (js ''&gt;'')
             (replaceAll_js 0x3C (js ''&lt;'')
               (replaceAll_js 0x26 (js ''&amp;'')
                 (removeAll_js controlChars2
                   (removeAll_js (\<lambda>c. c = 0xFFFD)
                     (removeAll_js controlChars text))))))))
       0 3000\<close>

text \<open>
  The template literal of lines 212--229, with \<open>width\<close> 1024 and \<open>height\<close> 1448, in
  two parts: up to \<open>${sanitizedText}\<close>, and after it.
\<close>

definition textImageSvg_before :: "nat \<Rightarrow> nat \<Rightarrow> jsstring" where
  \<open>textImageSvg_before pageNum totalPages =
     (let width = 1024; height = 1448 in
        nl
        @ js ''            <svg width="''
        @ toString_nat width
        @ js ''" height="''
        @ toString_nat height
        @ js ''" xmlns="http://www.w3.org/2000/svg">''
        @ nl
        @ js ''                <rect width="100%" height="100%" fill="white"/>''
        @ nl
        @ js ''                <text x="20" y="30" font-family="Arial" font-size="12" fill="#999">''
        @ nl
        @ js ''                    Page ''
        @ toString_nat pageNum
        @ js '' of ''
        @ toString_nat totalPages
        @ nl
        @ js ''                </text>''
        @ nl
        @ js ''                <foreignObject x="20" y="50" width="''
        @ toString_nat (width - 40)
        @ js ''" height="''
        @ toString_nat (height - 80)
        @ js ''">''
        @ nl
        @ js ''                    <div xmlns="http://www.w3.org/1999/xhtml"''
        @ nl
        @ js ''                         style="font-family: Arial, sans-serif; font-size: 12px; line-height: 1.6;''
        @ nl
        @ js ''                                color: #333; word-wrap: break-word; white-space: pre-wrap;">''
        @ nl
        @ js ''                        '')\<close>

definition textImageSvg_after :: jsstring where
  \<open>textImageSvg_after =
     (let height = 1448 in
        nl
        @ js ''                    </div>''
        @ nl
        @ js ''                </foreignObject>''
        @ nl
        @ js ''                <text x="20" y="''
        @ toString_nat (height - 20)
        @ js ''" font-family="Arial" font-size="10" fill="#999">''
        @ nl
        @ js ''                    Generated from PDF text extraction''
        @ nl
        @ js ''                </text>''
        @ nl
        @ js ''            </svg>''
        @ nl
        @ js ''        '')\<close>

definition textImageSvg :: "jsstring \<Rightarrow> nat \<Rightarrow> nat \<Rightarrow> jsstring" where
  "textImageSvg sanitized pageNum totalPages =
     textImageSvg_before pageNum totalPages @ sanitized @ textImageSvg_after"

definition createTextImage :: "sharp \<Rightarrow> jsstring \<Rightarrow> nat \<Rightarrow> nat \<Rightarrow> (exn + buffer) \<times> call list" where
  "createTextImage sharp text pageNum totalPages =
     (case sharp (SharpString (textImageSvg (sanitizedText text) pageNum totalPages)) None 85 of
        Inr imageBuffer \<Rightarrow> (Inr imageBuffer, [Call_sharp])
      | Inl error \<Rightarrow> (Inl (Error (js ''Failed to create text image'')), [Call_sharp]))"

subsection \<open>processPDFWithTextExtraction, lines 151--182\<close>

text \<open>The loop of lines 161--163.\<close>

function textPages :: "jsstring \<Rightarrow> nat \<Rightarrow> jsstring list \<Rightarrow> jsstring list" where
  "textPages text i pages =
     (if i < length text then textPages text (i + 2000) (pages @ [substring text i (i + 2000)])
      else pages)"
  by pat_completeness auto
termination
  by (relation "measure (\<lambda>(text, i, pages). length text - i)") auto

text \<open>The value of \<open>pages\<close> at line 168, after the placeholder of lines 165--167.\<close>

definition pdfTextPages :: "jsstring \<Rightarrow> jsstring list" where
  "pdfTextPages text =
     (let pages = textPages text 0 []
      in if length pages = 0 then pages @ [js ''Empty PDF or could not extract text''] else pages)"

text \<open>The loop of lines 171--174; an exception of createTextImage leaves it.\<close>

function textImages :: "sharp \<Rightarrow> jsstring list \<Rightarrow> nat \<Rightarrow> buffer list \<Rightarrow> call list
    \<Rightarrow> (exn + buffer list) \<times> call list" where
  "textImages sharp pages i images calls =
     (if i < length pages then
        (case createTextImage sharp (pages ! i) (i + 1) (length pages) of
           (Inl error, cs) \<Rightarrow> (Inl error, calls @ cs)
         | (Inr imageBuffer, cs) \<Rightarrow>
             textImages sharp pages (i + 1) (images @ [imageBuffer]) (calls @ cs))
      else (Inr images, calls))"
  by pat_completeness auto
termination
  by (relation "measure (\<lambda>(sharp, pages, i, images, calls). length pages - i)") auto

definition processPDFWithTextExtraction :: "env \<Rightarrow> jsstring \<Rightarrow> (exn + buffer list) \<times> call list" where
  "processPDFWithTextExtraction env pdfPath =
     (case env_readFileSync env pdfPath of
        Inl error \<Rightarrow>
          (Inl (ErrorFrom (js ''Failed to process PDF file: '') error), [Call_readFileSync])
      | Inr dataBuffer \<Rightarrow>
          (case env_pdfParse env dataBuffer of
             Inl error \<Rightarrow>
               (Inl (ErrorFrom (js ''Failed to process PDF file: '') error),
                [Call_readFileSync, Call_pdfParse])
           | Inr pdfData_text \<Rightarrow>
               (let text = (case pdfData_text of None \<Rightarrow> [] | Some t \<Rightarrow> t);
                    pages = pdfTextPages text
                in case textImages (env_sharp env) pages 0 [] [Call_readFileSync, Call_pdfParse] of
                     (Inl error, calls) \<Rightarrow>
                       (Inl (ErrorFrom (js ''Failed to process PDF file: '') error), calls)
                   | (Inr images, calls) \<Rightarrow> (Inr images, calls))))"

subsection \<open>processPDFWithPdf2Pic, lines 93--144\<close>

text \<open>The body of the \<open>try\<close> block of lines 115--131, for one page number.\<close>

definition convertPage :: "convert \<Rightarrow> sharp \<Rightarrow> nat \<Rightarrow> (exn + buffer option) \<times> call list" where
  "convertPage convert sharp pageNum =
     (case convert pageNum of
        Inl err \<Rightarrow> (Inl err, [Call_convert pageNum])
      | Inr None \<Rightarrow> (Inr None, [Call_convert pageNum])
      | Inr (Some buf) \<Rightarrow>
          (case sharp (SharpBuffer buf) (Some (Inside_withoutEnlargement 1024 1448)) 85 of
             Inl err \<Rightarrow> (Inl err, [Call_convert pageNum, Call_sharp])
           | Inr optimizedBuffer \<Rightarrow>
               (Inr (Some optimizedBuffer), [Call_convert pageNum, Call_sharp])))"

text \<open>The loop of lines 113--136.\<close>

function pdf2picLoop :: "convert \<Rightarrow> sharp \<Rightarrow> buffer list \<Rightarrow> nat \<Rightarrow> bool \<Rightarrow> call list
    \<Rightarrow> buffer list \<times> call list" where
  "pdf2picLoop convert sharp images pageNum hasMorePages calls =
     (if hasMorePages \<and> pageNum \<le> 20 then
        (case convertPage convert sharp pageNum of
           (Inr (Some optimizedBuffer), cs) \<Rightarrow>
             pdf2picLoop convert sharp (images @ [optimizedBuffer]) (pageNum + 1) True (calls @ cs)
         | (Inr None, cs) \<Rightarrow> pdf2picLoop convert sharp images pageNum False (calls @ cs)
         | (Inl err, cs) \<Rightarrow> pdf2picLoop convert sharp images pageNum False (calls @ cs))
      else (images, calls))"
  by pat_completeness auto
termination
  by (relation "measure (\<lambda>(convert, sharp, images, pageNum, hasMorePages, calls).
        2 * (21 - pageNum) + (if hasMorePages then 1 else 0))") auto

definition processPDFWithPdf2Pic :: "sharp \<Rightarrow> (jsstring \<Rightarrow> exn + convert) \<Rightarrow> jsstring
    \<Rightarrow> (exn + buffer list) \<times> call list" where
  "processPDFWithPdf2Pic sharp fromPath pdfPath =
     (case fromPath pdfPath of
        Inl err \<Rightarrow> (Inl err, [Call_fromPath])
      | Inr convert \<Rightarrow>
          (case pdf2picLoop convert sharp [] 1 True [Call_fromPath] of
             (images, calls) \<Rightarrow>
               if length images = 0 then
                 (Inl (Error (js ''No pages could be converted from PDF using pdf2pic'')), calls)
               else (Inr images, calls)))"

subsection \<open>processPDF, processImage and processFile\<close>

text \<open>Lines 73--86.\<close>

definition processPDF :: "env \<Rightarrow> jsstring \<Rightarrow> (exn + buffer list) \<times> call list" where
  "processPDF env pdfPath =
     (case env_pdf2pic env of
        None \<Rightarrow> processPDFWithTextExtraction env pdfPath
      | Some fromPath \<Rightarrow>
          (case processPDFWithPdf2Pic (env_sharp env) fromPath pdfPath of
             (Inr images, calls) \<Rightarrow> (Inr images, calls)
           | (Inl error, calls) \<Rightarrow>
               (case processPDFWithTextExtraction env pdfPath of
                  (result, calls') \<Rightarrow> (result, calls @ calls'))))"

text \<open>Lines 247--263.\<close>

definition processImage :: "sharp \<Rightarrow> jsstring \<Rightarrow> (exn + buffer list) \<times> call list" where
  "processImage sharp imagePath =
     (case sharp (SharpFile imagePath) (Some (Inside_withoutEnlargement 1024 1024)) 85 of
        Inr imageBuffer \<Rightarrow> (Inr [imageBuffer], [Call_sharp])
      | Inl error \<Rightarrow> (Inl (Error (js ''Failed to process image file'')), [Call_sharp]))"

text \<open>
  Lines 50--66, from the lower-cased extension of the original file name on; the
  \<open>catch\<close> block logs the error and throws it again.
\<close>

definition processFile :: "env \<Rightarrow> jsstring \<Rightarrow> jsstring \<Rightarrow> (exn + buffer list) \<times> call list" where
  "processFile env filePath fileExtension =
     (if fileExtension = js ''.pdf'' then processPDF env filePath
      else if fileExtension \<in> set [js ''.jpg'', js ''.jpeg'', js ''.png''] then
        processImage (env_sharp env) filePath
      else (Inl (Error (js ''Unsupported file type: '' @ fileExtension)), []))"

subsection \<open>Libraries for the examples\<close>


definition convert_failing :: convert where
  "convert_failing n = Inl (Error (js ''no such page''))"


definition fromPath_failing :: "jsstring \<Rightarrow> exn + convert" where
  "fromPath_failing pdfPath = Inr convert_failing"

definition sharp_example :: sharp where
  "sharp_example source resize quality =
     (case source of
        SharpFile p \<Rightarrow> Inr [0xFF, 0xD8]
      | SharpBuffer b \<Rightarrow> Inr (0xFF # 0xD8 # b)
      | SharpString s \<Rightarrow> Inr [0xFF, 0xD8, of_nat (length s)])"

text \<open>
  sharp reads an SVG document with an XML parser, which refuses a document that is not
  well formed. \<open>sharp_xml\<close> is a rasteriser that makes the two checks that matter for the
  documents of createTextImage: every code unit is a character of XML 1.0 (a surrogate
  is one half of a character, or is replaced when the buffer is made), and every
  ampersand starts one of the five entity references that the sanitiser writes. It
  accepts every other input.
\<close>

definition xmlChar :: "16 word \<Rightarrow> bool" where
  "xmlChar c = (c = 0x9 \<or> c = 0xA \<or> c = 0xD \<or> (0x20 \<le> c \<and> c \<le> 0xFFFD))"

fun entityReferences :: "jsstring \<Rightarrow> bool" where
  "entityReferences [] = True"
| "entityReferences (c # s) =
     ((if c = 0x26 then
         startsWith s (js ''amp;'') \<or> startsWith s (js ''lt;'') \<or> startsWith s (js ''gt;'')
         \<or> startsWith s (js ''quot;'') \<or> startsWith s (js ''apos;'')
       else True)
      \<and> entityReferences s)"

definition sharp_xml :: sharp where
  "sharp_xml source resize quality =
     (case source of
        SharpFile p \<Rightarrow> Inr [0xFF, 0xD8]
      | SharpBuffer b \<Rightarrow> Inr (0xFF # 0xD8 # b)
      | SharpString s \<Rightarrow>
          if list_all xmlChar s \<and> entityReferences s then Inr [0xFF, 0xD8, of_nat (length s)]
          else Inl (Error (js ''Input buffer contains unsupported image format'')))"

definition readFileSync_example :: "jsstring \<Rightarrow> exn + buffer" where
  "readFileSync_example p = Inr [0x25, 0x50, 0x44, 0x46]"

definition env_example :: "(jsstring \<Rightarrow> exn + convert) option \<Rightarrow> sharp \<Rightarrow> jsstring \<Rightarrow> env" where
  "env_example pdf2pic sharp pdfText =
     \<lparr>env_pdf2pic = pdf2pic,
      env_sharp = sharp,
      env_readFileSync = readFileSync_example,
      env_pdfParse = (\<lambda>b. Inr (Some pdfText))\<rparr>"

subsection \<open>A parser for the examples\<close>

text \<open>
  \<open>JSON.parse\<close> on the texts used in the examples below: it returns what the built-in
  returns on the three JSON texts listed, and throws on the other texts of the
  examples, none of which is JSON.
\<close>

definition JSON_parse_example :: json_parse where
  \<open>JSON_parse_example s =
     (if s = js ''{"foo": 1}'' then Inr (JObj [(js ''foo'', JNum 1)])
      else if s = js ''{"overall_score": 70, "question_analysis": []}'' then
        Inr (JObj [(js ''overall_score'', JNum 70), (js ''question_analysis'', JArr [] [])])
      else if s = js ''{"summary": "Good work", "recommendations": "Please review the detailed analysis above"}'' then
        Inr (JObj [(js ''summary'', JStr (js ''Good work'')),
                   (js ''recommendations'', JStr (js ''Please review the detailed analysis above''))])
      else Inl SyntaxError)\<close>

section \<open>Properties of the response cleaning\<close>

lemma js_brace: "js ''}'' = [0x7D]" by (simp add: js_def)
lemma js_fence: "js ''```'' = [0x60, 0x60, 0x60]" by (simp add: js_def)

lemma endsWith_suffix: "endsWith s p = suffix p s"
  unfolding endsWith_def
  by (metis append_take_drop_id diff_diff_cancel length_drop suffix_drop suffix_length_le suffix_take append_eq_conv_conj suffix_def)

lemma startsWith_prefix: "startsWith s p = prefix p s"
  unfolding startsWith_def
  by (metis prefix_def append_eq_conv_conj take_is_prefix)

lemma endsWith_brace: "endsWith c (js ''}'') = (c \<noteq> [] \<and> last c = 0x7D)"
  unfolding endsWith_suffix js_brace
  by (metis append_butlast_last_id last_snoc suffix_def snoc_eq_iff_butlast suffix_bot.extremum_uniqueI suffixI)

lemma endsWith_quote_brace: \<open>endsWith c (js ''"}'') \<Longrightarrow> endsWith c (js ''}'')\<close>
  unfolding endsWith_suffix by (auto simp: js_def suffix_def)

lemma appearsTruncated_iff: "appearsTruncated c = (\<not> endsWith c (js ''}''))"
  unfolding appearsTruncated_def using endsWith_quote_brace by blast

lemma last_recommendationsSuffix: "recommendationsSuffix \<noteq> [] \<and> last recommendationsSuffix = 0x7D"
  by (simp add: recommendationsSuffix_def js_def)

lemma endsWith_append_brace: "endsWith (c @ js ''}'') (js ''}'')"
  unfolding endsWith_brace by (simp add: js_brace)

lemma endsWith_append_recommendations: "endsWith (c @ recommendationsSuffix) (js ''}'')"
  unfolding endsWith_brace using last_recommendationsSuffix by simp

lemma repairTruncation_endsWith: "endsWith (repairTruncation c) (js ''}'')"
  by (simp add: repairTruncation_def appearsTruncated_iff endsWith_append_brace
      endsWith_append_recommendations)

lemma repairTruncation_eq:
  \<open>repairTruncation c =
     (if endsWith c (js ''}'') then c
      else if includes_js c (js ''"summary":'') \<and> \<not> includes_js c (js ''"recommendations":'')
           then c @ recommendationsSuffix
      else c @ js ''}'')\<close>
  by (simp add: repairTruncation_def appearsTruncated_iff)

lemma trim_ends:
  "trim s = [] \<or> (\<not> isWhiteSpace (hd (trim s)) \<and> \<not> isWhiteSpace (last (trim s)))"
proof (cases "trim s = []")
  case True then show ?thesis by simp
next
  case False
  let ?a = "dropWhile isWhiteSpace s"
  let ?b = "dropWhile isWhiteSpace (rev ?a)"
  have b: "?b \<noteq> []" using False by (simp add: trim_def)
  then have hb: "\<not> isWhiteSpace (hd ?b)" by (rule hd_dropWhile)
  have "last (trim s) = hd ?b" using b by (simp add: trim_def last_rev)
  then have l: "\<not> isWhiteSpace (last (trim s))" using hb by simp
  have a: "?a \<noteq> []"
  proof
    assume "?a = []"
    then have "?b = []" by (metis dropWhile.simps(1) rev.simps(1))
    with b show False by (simp only:)
  qed
  then have ha: "\<not> isWhiteSpace (hd ?a)" by (rule hd_dropWhile)
  obtain ws where ws: "rev ?a = ws @ ?b" by (metis takeWhile_dropWhile_id)
  then have "?a = rev ?b @ rev ws" by (metis rev_append rev_rev_ident)
  then have "hd ?a = hd (rev ?b)" using b by (metis hd_append2 rev_is_Nil_conv)
  then have "\<not> isWhiteSpace (hd (trim s))" using ha by (simp add: trim_def)
  with l show ?thesis by simp
qed

lemma trim_id:
  assumes "s \<noteq> []" "\<not> isWhiteSpace (hd s)" "\<not> isWhiteSpace (last s)"
  shows "trim s = s"
proof -
  have 1: "dropWhile isWhiteSpace s = s" using assms(1,2) by (cases s) auto
  have "hd (rev s) = last s" using assms(1) by (simp add: hd_rev)
  moreover obtain y ys where yys: "rev s = y # ys" using assms(1) by (cases "rev s") auto
  ultimately have "y = last s" by simp
  then have "dropWhile isWhiteSpace (y # ys) = y # ys" using assms(3) by simp
  then have 2: "dropWhile isWhiteSpace (rev s) = rev s" by (simp only: yys)
  show ?thesis by (simp add: trim_def 1 2)
qed

lemma not_ws_brace: "\<not> isWhiteSpace 0x7D" by (simp add: isWhiteSpace_def)

lemma includes_js_Nil: "includes_js [] p = (p = [])" by simp

lemma repairTruncation_Nil: "repairTruncation [] = js ''}''"
  by (simp add: repairTruncation_def appearsTruncated_def endsWith_def js_def)

lemma repairTruncation_cases:
  "repairTruncation c = c \<or> repairTruncation c = c @ js ''}'' \<or> repairTruncation c = c @ recommendationsSuffix"
  by (simp add: repairTruncation_def)

lemma no_fence_append:
  assumes "\<not> startsWith t (js ''```'')" and "suf = [] \<or> hd suf \<noteq> 0x60"
  shows "\<not> startsWith (t @ suf) (js ''```'')"
proof
  assume h: "startsWith (t @ suf) (js ''```'')"
  have l3: "length (js ''```'') = 3" by (simp add: js_def)
  have "take 3 (t @ suf) = js ''```''" using h by (simp only: startsWith_def l3)
  then have tk: "take 3 (t @ suf) = [0x60, 0x60, 0x60]" by (simp only: js_fence)
  show False
  proof (cases "3 \<le> length t")
    case True
    then have "take 3 (t @ suf) = take 3 t" by simp
    then have "take 3 t = js ''```''" using tk by (simp only: js_fence)
    then show False using assms(1) by (simp only: startsWith_def l3)
  next
    case False
    then have lt: "length t < 3" by simp
    have "length (take 3 (t @ suf)) = 3" by (simp only: tk) simp
    then have len: "3 \<le> length (t @ suf)" by simp
    then have sn: "suf \<noteq> []" using lt by auto
    have "(t @ suf) ! length t = 0x60"
    proof -
      have "(take 3 (t @ suf)) ! length t = (t @ suf) ! length t" using lt by (rule nth_take)
      moreover have "[0x60, 0x60, 0x60::16 word] ! length t = 0x60" using lt
        by (cases "length t"; simp add: nth_Cons split: nat.splits)
      ultimately show ?thesis using tk by simp
    qed
    then have "hd suf = 0x60" using sn by (simp add: nth_append hd_conv_nth)
    then show False using assms(2) sn by simp
  qed
qed

lemma startsWith_json_fence: "startsWith s (js ''```json'') \<Longrightarrow> startsWith s (js ''```'')"
  unfolding startsWith_prefix by (auto simp: js_def prefix_def)

lemma stripCodeFences_id: "\<not> startsWith s (js ''```'') \<Longrightarrow> stripCodeFences s = s"
  using startsWith_json_fence by (auto simp: stripCodeFences_def)

lemma repairTruncation_no_fence:
  assumes "\<not> startsWith t (js ''```'')"
  shows "\<not> startsWith (repairTruncation t) (js ''```'')"
proof -
  have 1: "\<not> startsWith (t @ []) (js ''```'')" using assms by simp
  have 2: "\<not> startsWith (t @ js ''}'') (js ''```'')"
    by (rule no_fence_append[OF assms]) (simp add: js_def)
  have 3: "\<not> startsWith (t @ recommendationsSuffix) (js ''```'')"
    by (rule no_fence_append[OF assms]) (simp add: js_def recommendationsSuffix_def)
  show ?thesis using repairTruncation_cases[of t] 1 2 3 by auto
qed

lemma repairTruncation_trim:
  assumes "t = [] \<or> \<not> isWhiteSpace (hd t)"
  shows "trim (repairTruncation t) = repairTruncation t"
proof (rule trim_id)
  have e: "endsWith (repairTruncation t) (js ''}'')" by (rule repairTruncation_endsWith)
  then show n: "repairTruncation t \<noteq> []" by (simp add: endsWith_brace)
  show "\<not> isWhiteSpace (last (repairTruncation t))" using e not_ws_brace by (simp add: endsWith_brace)
  show "\<not> isWhiteSpace (hd (repairTruncation t))"
  proof (cases "t = []")
    case True
    then show ?thesis by (simp add: repairTruncation_Nil js_def not_ws_brace)
  next
    case False
    then have "hd (repairTruncation t) = hd t" using repairTruncation_cases[of t] by auto
    then show ?thesis using assms False by simp
  qed
qed

lemma repairTruncation_idem: "repairTruncation (repairTruncation c) = repairTruncation c"
  using repairTruncation_endsWith[of c] by (simp add: repairTruncation_eq)

text \<open>
  C8. Cleaning is idempotent on every input that carries no code fence, that is, whose
  trimmed text does not start with three backticks (the test of lines 322 and 324):
  cleaning the cleaned text again changes nothing.
\<close>

theorem cleanedResponse_idempotent:
  assumes "\<not> startsWith (trim x) (js ''```'')"
  shows "cleanedResponse (cleanedResponse x) = cleanedResponse x"
proof -
  let ?t = "trim x"
  have c: "cleanedResponse x = repairTruncation ?t"
    using assms by (simp add: cleanedResponse_def stripCodeFences_id)
  have "?t = [] \<or> \<not> isWhiteSpace (hd ?t)" using trim_ends[of x] by auto
  then have 1: "trim (repairTruncation ?t) = repairTruncation ?t" by (rule repairTruncation_trim)
  have 2: "stripCodeFences (repairTruncation ?t) = repairTruncation ?t"
    by (rule stripCodeFences_id) (rule repairTruncation_no_fence[OF assms])
  show ?thesis unfolding c
    by (simp add: cleanedResponse_def[of "repairTruncation ?t"] 1 2 repairTruncation_idem)
qed


theorem cleanedResponse_idempotent_witness:
  \<open>\<not> startsWith (trim (js ''  {"summary": "Good work  '')) (js ''```'')
   \<and> cleanedResponse (cleanedResponse (js ''  {"summary": "Good work  ''))
       = cleanedResponse (js ''  {"summary": "Good work  '')
   \<and> cleanedResponse (js ''  {"summary": "Good work  '')
       = js ''{"summary": "Good work", "recommendations": "Please review the detailed analysis above"}''\<close>
proof -
  have h: \<open>\<not> startsWith (trim (js ''  {"summary": "Good work  '')) (js ''```'')\<close>
    by code_simp
  have v: \<open>cleanedResponse (js ''  {"summary": "Good work  '')
       = js ''{"summary": "Good work", "recommendations": "Please review the detailed analysis above"}''\<close>
    by code_simp
  from h v cleanedResponse_idempotent [OF h] show ?thesis by (simp only: simp_thms)
qed

text \<open>
  C7. The cleaned text is flagged as truncated exactly when it does not end with the
  closing brace (which is the same as ending neither with the brace nor with a quote
  followed by the brace). When flagged, the repair appends the closing recommendations
  field if the text contains the summary key but not the recommendations key, and a
  single closing brace otherwise; when not flagged the text is left as it is.
\<close>

theorem truncation_flag_and_repair:
  \<open>appearsTruncated c = (\<not> endsWith c (js ''}''))
   \<and> appearsTruncated c = (\<not> (endsWith c (js ''}'') \<or> endsWith c (js ''"}'')))
   \<and> (appearsTruncated c \<longrightarrow>
        repairTruncation c =
          (if includes_js c (js ''"summary":'') \<and> \<not> includes_js c (js ''"recommendations":'')
           then c @ js ''", "recommendations": "Please review the detailed analysis above"}''
           else c @ js ''}''))
   \<and> (\<not> appearsTruncated c \<longrightarrow> repairTruncation c = c)\<close>
proof -
  have 1: "appearsTruncated c = (\<not> endsWith c (js ''}''))" by (rule appearsTruncated_iff)
  have 2: \<open>appearsTruncated c = (\<not> (endsWith c (js ''}'') \<or> endsWith c (js ''"}'')))\<close>
    by (simp add: appearsTruncated_def)
  have 3: \<open>appearsTruncated c \<longrightarrow>
        repairTruncation c =
          (if includes_js c (js ''"summary":'') \<and> \<not> includes_js c (js ''"recommendations":'')
           then c @ js ''", "recommendations": "Please review the detailed analysis above"}''
           else c @ js ''}'')\<close>
    by (simp add: repairTruncation_eq appearsTruncated_iff recommendationsSuffix_def)
  have 4: "\<not> appearsTruncated c \<longrightarrow> repairTruncation c = c"
    by (simp add: repairTruncation_def)
  from 1 2 3 4 show ?thesis by blast
qed

theorem truncation_flag_and_repair_witness:
  \<open>appearsTruncated (js ''{"summary": "Good work'')
   \<and> repairTruncation (js ''{"summary": "Good work'')
       = js ''{"summary": "Good work'' @ js ''", "recommendations": "Please review the detailed analysis above"}''
   \<and> appearsTruncated (js ''{"score": 8'')
   \<and> repairTruncation (js ''{"score": 8'') = js ''{"score": 8'' @ js ''}''
   \<and> \<not> appearsTruncated (js ''{"score": 85}'')
   \<and> repairTruncation (js ''{"score": 85}'') = js ''{"score": 85}''\<close>
proof -
  have a: \<open>appearsTruncated (js ''{"summary": "Good work'')\<close> by code_simp
  have a1: \<open>includes_js (js ''{"summary": "Good work'') (js ''"summary":'')\<close> by code_simp
  have a2: \<open>\<not> includes_js (js ''{"summary": "Good work'') (js ''"recommendations":'')\<close>
    by code_simp
  have b: \<open>appearsTruncated (js ''{"score": 8'')\<close> by code_simp
  have b1: \<open>\<not> includes_js (js ''{"score": 8'') (js ''"summary":'')\<close> by code_simp
  have c: \<open>\<not> appearsTruncated (js ''{"score": 85}'')\<close> by code_simp
  from a a1 a2 truncation_flag_and_repair [of \<open>js ''{"summary": "Good work''\<close>]
  have A: \<open>repairTruncation (js ''{"summary": "Good work'')
       = js ''{"summary": "Good work'' @ js ''", "recommendations": "Please review the detailed analysis above"}''\<close>
    by (simp only: simp_thms if_True)
  from b b1 truncation_flag_and_repair [of \<open>js ''{"score": 8''\<close>]
  have B: \<open>repairTruncation (js ''{"score": 8'') = js ''{"score": 8'' @ js ''}''\<close>
    by (simp only: simp_thms if_False)
  from c truncation_flag_and_repair [of \<open>js ''{"score": 85}''\<close>]
  have C: \<open>repairTruncation (js ''{"score": 85}'') = js ''{"score": 85}''\<close>
    by (simp only: simp_thms)
  from a b c A B C show ?thesis by (simp only: simp_thms)
qed

text \<open>
  C10. The truncation repair only appends: the text it is given is a prefix of the text
  it returns, and a text that already ends with the closing brace is returned unchanged.
\<close>

theorem repairTruncation_only_appends:
  "prefix c (repairTruncation c) \<and> (endsWith c (js ''}'') \<longrightarrow> repairTruncation c = c)"
  by (simp add: repairTruncation_eq)

theorem repairTruncation_only_appends_witness:
  \<open>endsWith (js ''{"score": 85}'') (js ''}'')
   \<and> repairTruncation (js ''{"score": 85}'') = js ''{"score": 85}''
   \<and> prefix (js ''{"score": 8'') (repairTruncation (js ''{"score": 8''))
   \<and> repairTruncation (js ''{"score": 8'') = js ''{"score": 8}''\<close>
proof -
  have e: \<open>endsWith (js ''{"score": 85}'') (js ''}'')\<close> by code_simp
  have r: \<open>repairTruncation (js ''{"score": 8'') = js ''{"score": 8}''\<close> by code_simp
  from e r repairTruncation_only_appends [of \<open>js ''{"score": 85}''\<close>]
    repairTruncation_only_appends [of \<open>js ''{"score": 8''\<close>]
  show ?thesis by (simp only: simp_thms)
qed

section \<open>Properties of the structured response recovery\<close>

lemma analyzeContent_recover_cases:
  "analyzeContent_recover JSON_parse s =
     (case JSON_parse s of Inr v \<Rightarrow> Inr v | Inl e \<Rightarrow> Inr (analyzeContent_fallback s))"
  by (simp add: analyzeContent_recover_def)

lemma analyzeContentWithStatement_recover_cases:
  "analyzeContentWithStatement_recover JSON_parse s =
     (case parsedAnalysis JSON_parse (cleanedResponse s) of
        Inr v \<Rightarrow> Inr v
      | Inl e \<Rightarrow> Inr (analyzeContentWithStatement_fallback s))"
  by (simp add: analyzeContentWithStatement_recover_def)

text \<open>
  The guard before the recovery stage (lines 189 and 316) rejects an empty message
  content, so the empty string never reaches the stage inside the two functions.
\<close>

lemma empty_content_rejected_before_recovery:
  "analyzeContent JSON_parse [] = Inl (Error (js ''Failed to analyze content''))"
  "analyzeContentWithStatement JSON_parse [] =
     Inl (Error (js ''Failed to analyze content with statement context''))"
  by (simp_all add: analyzeContent_def analyzeContentWithStatement_def)

lemma nonempty_content_recovered:
  "s \<noteq> [] \<Longrightarrow> analyzeContent JSON_parse s = analyzeContent_recover JSON_parse s"
  "s \<noteq> [] \<Longrightarrow>
     analyzeContentWithStatement JSON_parse s = analyzeContentWithStatement_recover JSON_parse s"
  by (simp_all add: analyzeContent_def analyzeContentWithStatement_def
      analyzeContent_recover_def analyzeContentWithStatement_recover_def split: sum.splits)

text \<open>
  The recovery stage alone, without the guard before it: whatever \<open>JSON.parse\<close> does, the
  inner \<open>catch\<close> takes every exception of the \<open>try\<close> block.
\<close>

lemma recover_stage_total:
  "(\<exists>r. analyzeContent_recover JSON_parse s = Inr r
        \<and> (JSON_parse s = Inr r \<or> r = analyzeContent_fallback s))
   \<and> (\<exists>r. analyzeContentWithStatement_recover JSON_parse s = Inr r
        \<and> (parsedAnalysis JSON_parse (cleanedResponse s) = Inr r
             \<or> r = analyzeContentWithStatement_fallback s))"
proof
  show "\<exists>r. analyzeContent_recover JSON_parse s = Inr r
        \<and> (JSON_parse s = Inr r \<or> r = analyzeContent_fallback s)"
    by (cases "JSON_parse s") (simp_all add: analyzeContent_recover_cases)
  show "\<exists>r. analyzeContentWithStatement_recover JSON_parse s = Inr r
        \<and> (parsedAnalysis JSON_parse (cleanedResponse s) = Inr r
             \<or> r = analyzeContentWithStatement_fallback s)"
    by (cases "parsedAnalysis JSON_parse (cleanedResponse s)")
       (simp_all add: analyzeContentWithStatement_recover_cases)
qed

text \<open>
  C1, as the code has it. For every non-empty message content, and whatever
  \<open>JSON.parse\<close> does on it, analyzeContent and analyzeContentWithStatement do not raise:
  each returns the parsed record, or else its fallback record. The empty string is
  rejected by the guard before the recovery (lines 189 and 316), and the functions
  raise.
\<close>

theorem analysis_never_raises_on_nonempty_text:
  "(s \<noteq> [] \<longrightarrow>
      (\<exists>r. analyzeContent JSON_parse s = Inr r
          \<and> (JSON_parse s = Inr r \<or> r = analyzeContent_fallback s))
      \<and> (\<exists>r. analyzeContentWithStatement JSON_parse s = Inr r
          \<and> (parsedAnalysis JSON_parse (cleanedResponse s) = Inr r
               \<or> r = analyzeContentWithStatement_fallback s)))
   \<and> analyzeContent JSON_parse [] = Inl (Error (js ''Failed to analyze content''))
   \<and> analyzeContentWithStatement JSON_parse [] =
       Inl (Error (js ''Failed to analyze content with statement context''))"
proof -
  have a: "s \<noteq> [] \<longrightarrow>
      (\<exists>r. analyzeContent JSON_parse s = Inr r
          \<and> (JSON_parse s = Inr r \<or> r = analyzeContent_fallback s))
      \<and> (\<exists>r. analyzeContentWithStatement JSON_parse s = Inr r
          \<and> (parsedAnalysis JSON_parse (cleanedResponse s) = Inr r
               \<or> r = analyzeContentWithStatement_fallback s))"
    using recover_stage_total [of JSON_parse s] nonempty_content_recovered [of s JSON_parse]
    by simp
  have b: "analyzeContent JSON_parse [] = Inl (Error (js ''Failed to analyze content''))"
    by (rule empty_content_rejected_before_recovery)
  have c: "analyzeContentWithStatement JSON_parse [] =
       Inl (Error (js ''Failed to analyze content with statement context''))"
    by (rule empty_content_rejected_before_recovery)
  from a b c show ?thesis by blast
qed

text \<open>
  White space only, JSON of the wrong shape, JSON cut in the middle of a field, and a
  cut that the repair closes.
\<close>

theorem analysis_never_raises_on_nonempty_text_witness:
  \<open>js ''   '' \<noteq> []
   \<and> (\<exists>r. analyzeContentWithStatement JSON_parse_example (js ''   '') = Inr r)
   \<and> analyzeContentWithStatement JSON_parse_example (js ''   '')
       = Inr (analyzeContentWithStatement_fallback (js ''   ''))
   \<and> analyzeContent JSON_parse_example (js ''   '')
       = Inr (analyzeContent_fallback (js ''   ''))
   \<and> js ''{"foo": 1}'' \<noteq> []
   \<and> (\<exists>r. analyzeContentWithStatement JSON_parse_example (js ''{"foo": 1}'') = Inr r)
   \<and> analyzeContentWithStatement JSON_parse_example (js ''{"foo": 1}'')
       = Inr (JObj [(js ''foo'', JNum 1), (js ''question_analysis'', JArr [] [])])
   \<and> analyzeContent JSON_parse_example (js ''{"foo": 1}'')
       = Inr (JObj [(js ''foo'', JNum 1)])
   \<and> js ''{"overall_score": 85, "subj'' \<noteq> []
   \<and> (\<exists>r. analyzeContentWithStatement JSON_parse_example (js ''{"overall_score": 85, "subj'')
          = Inr r)
   \<and> analyzeContentWithStatement JSON_parse_example (js ''{"overall_score": 85, "subj'')
       = Inr (analyzeContentWithStatement_fallback (js ''{"overall_score": 85, "subj''))
   \<and> analyzeContent JSON_parse_example (js ''{"overall_score": 85, "subj'')
       = Inr (analyzeContent_fallback (js ''{"overall_score": 85, "subj''))
   \<and> analyzeContentWithStatement JSON_parse_example (js ''{"summary": "Good work'')
       = Inr (JObj [(js ''summary'', JStr (js ''Good work'')),
                    (js ''recommendations'', JStr (js ''Please review the detailed analysis above'')),
                    (js ''question_analysis'', JArr [] [])])\<close>
proof -
  have n: \<open>js ''   '' \<noteq> []\<close> \<open>js ''{"foo": 1}'' \<noteq> []\<close>
    \<open>js ''{"overall_score": 85, "subj'' \<noteq> []\<close>
    by (simp_all add: js_def)
  have 1: \<open>analyzeContentWithStatement JSON_parse_example (js ''   '')
       = Inr (analyzeContentWithStatement_fallback (js ''   ''))\<close>
    by code_simp
  have 2: \<open>analyzeContent JSON_parse_example (js ''   '')
       = Inr (analyzeContent_fallback (js ''   ''))\<close>
    by code_simp
  have 3: \<open>analyzeContentWithStatement JSON_parse_example (js ''{"foo": 1}'')
       = Inr (JObj [(js ''foo'', JNum 1), (js ''question_analysis'', JArr [] [])])\<close>
    by code_simp
  have 4: \<open>analyzeContent JSON_parse_example (js ''{"foo": 1}'')
       = Inr (JObj [(js ''foo'', JNum 1)])\<close>
    by code_simp
  have 5: \<open>analyzeContentWithStatement JSON_parse_example (js ''{"overall_score": 85, "subj'')
       = Inr (analyzeContentWithStatement_fallback (js ''{"overall_score": 85, "subj''))\<close>
    by code_simp
  have 6: \<open>analyzeContent JSON_parse_example (js ''{"overall_score": 85, "subj'')
       = Inr (analyzeContent_fallback (js ''{"overall_score": 85, "subj''))\<close>
    by code_simp
  have 7: \<open>analyzeContentWithStatement JSON_parse_example (js ''{"summary": "Good work'')
       = Inr (JObj [(js ''summary'', JStr (js ''Good work'')),
                    (js ''recommendations'', JStr (js ''Please review the detailed analysis above'')),
                    (js ''question_analysis'', JArr [] [])])\<close>
    by code_simp
  have a: \<open>\<exists>r. analyzeContentWithStatement JSON_parse_example (js ''   '') = Inr r\<close>
    using analysis_never_raises_on_nonempty_text [of \<open>js ''   ''\<close> JSON_parse_example] n(1)
    by blast
  have b: \<open>\<exists>r. analyzeContentWithStatement JSON_parse_example (js ''{"foo": 1}'') = Inr r\<close>
    using analysis_never_raises_on_nonempty_text [of \<open>js ''{"foo": 1}''\<close> JSON_parse_example] n(2)
    by blast
  have c: \<open>\<exists>r. analyzeContentWithStatement JSON_parse_example (js ''{"overall_score": 85, "subj'')
          = Inr r\<close>
    using analysis_never_raises_on_nonempty_text
      [of \<open>js ''{"overall_score": 85, "subj''\<close> JSON_parse_example] n(3)
    by blast
  from n 1 2 3 4 5 6 7 a b c show ?thesis by (simp only: simp_thms)
qed

text \<open>
  The claim as written fails at the empty string, which it names: both functions raise.
\<close>

theorem analysis_raises_on_empty_text_counterexample:
  "analyzeContent JSON_parse_example [] = Inl (Error (js ''Failed to analyze content''))
   \<and> analyzeContentWithStatement JSON_parse_example [] =
       Inl (Error (js ''Failed to analyze content with statement context''))"
  by (simp add: analyzeContent_def analyzeContentWithStatement_def)

text \<open>
  C6, as the code has it. Whenever \<open>JSON.parse\<close> throws in analyzeContent, or the
  \<open>try\<close> block of analyzeContentWithStatement throws (parsing, or filling in the
  required field), the record returned has score zero, subject \<open>Unknown\<close>, an empty
  list for every list field and the raw model text, unchanged, as \<open>raw_response\<close>. In
  analyzeContentWithStatement the summary and the recommendations are fixed notes that
  ask for a manual review; in analyzeContent the summary is the raw model text itself.
\<close>

theorem degraded_record_fields:
  "(JSON_parse s = Inl e \<longrightarrow>
      analyzeContent_recover JSON_parse s =
        Inr (JObj [(js ''score'', JNum 0),
                   (js ''subject'', JStr (js ''Unknown'')),
                   (js ''errors'', JArr [] []),
                   (js ''corrections'', JArr [] []),
                   (js ''summary'', JStr s),
                   (js ''raw_response'', JStr s)]))
   \<and> (parsedAnalysis JSON_parse (cleanedResponse s) = Inl e' \<longrightarrow>
      analyzeContentWithStatement_recover JSON_parse s =
        Inr (JObj [(js ''overall_score'', JNum 0),
                   (js ''subject'', JStr (js ''Unknown'')),
                   (js ''statement_used'', JBool True),
                   (js ''question_analysis'', JArr [] []),
                   (js ''summary'',
                      JStr (js ''Analysis completed but formatting issues occurred. Please review manually.'')),
                   (js ''recommendations'', JStr (js ''Please review the analysis manually'')),
                   (js ''raw_response'', JStr s)]))"
  by (simp add: analyzeContent_recover_cases analyzeContentWithStatement_recover_cases
      analyzeContent_fallback_def analyzeContentWithStatement_fallback_def)

theorem degraded_record_fields_witness:
  \<open>JSON_parse_example (js ''  {"overall_score": 85, "subj'') = Inl SyntaxError
   \<and> analyzeContent_recover JSON_parse_example (js ''  {"overall_score": 85, "subj'') =
        Inr (JObj [(js ''score'', JNum 0),
                   (js ''subject'', JStr (js ''Unknown'')),
                   (js ''errors'', JArr [] []),
                   (js ''corrections'', JArr [] []),
                   (js ''summary'', JStr (js ''  {"overall_score": 85, "subj'')),
                   (js ''raw_response'', JStr (js ''  {"overall_score": 85, "subj''))])
   \<and> parsedAnalysis JSON_parse_example (cleanedResponse (js ''  {"overall_score": 85, "subj''))
        = Inl SyntaxError
   \<and> analyzeContentWithStatement_recover JSON_parse_example (js ''  {"overall_score": 85, "subj'') =
        Inr (JObj [(js ''overall_score'', JNum 0),
                   (js ''subject'', JStr (js ''Unknown'')),
                   (js ''statement_used'', JBool True),
                   (js ''question_analysis'', JArr [] []),
                   (js ''summary'',
                      JStr (js ''Analysis completed but formatting issues occurred. Please review manually.'')),
                   (js ''recommendations'', JStr (js ''Please review the analysis manually'')),
                   (js ''raw_response'', JStr (js ''  {"overall_score": 85, "subj''))])\<close>
proof -
  have p: \<open>JSON_parse_example (js ''  {"overall_score": 85, "subj'') = Inl SyntaxError\<close>
    by code_simp
  have q: \<open>parsedAnalysis JSON_parse_example (cleanedResponse (js ''  {"overall_score": 85, "subj''))
        = Inl SyntaxError\<close>
    by code_simp
  from p q
    degraded_record_fields [of JSON_parse_example \<open>js ''  {"overall_score": 85, "subj''\<close>
      SyntaxError SyntaxError]
  show ?thesis by (simp only: simp_thms)
qed

text \<open>
  The claim as written fails in analyzeContent: the text below is not JSON, and the
  record returned for it carries no note that the analysis could not be completed;
  its summary is the model's text.
\<close>

theorem degraded_record_note_counterexample:
  \<open>analyzeContent_recover JSON_parse_example (js ''I cannot read this exam.'') =
     Inr (JObj [(js ''score'', JNum 0),
                (js ''subject'', JStr (js ''Unknown'')),
                (js ''errors'', JArr [] []),
                (js ''corrections'', JArr [] []),
                (js ''summary'', JStr (js ''I cannot read this exam.'')),
                (js ''raw_response'', JStr (js ''I cannot read this exam.''))])\<close>
  by code_simp

section \<open>Properties of the document normalisation\<close>

declare textPages.simps [simp del] textImages.simps [simp del] pdf2picLoop.simps [simp del]

lemma substring_chunk: "i \<le> length s \<Longrightarrow> substring s i (i + n) = take n (drop i s)"
  by (simp add: substring_def Let_def min_def max_def)

lemma textPages_chunks:
  "textPages text (2000 * j) pages =
     pages @ map (\<lambda>m. take 2000 (drop (2000 * m) text)) [j..<(length text + 1999) div 2000]"
proof (induction "(length text + 1999) div 2000 - j" arbitrary: j pages)
  case 0
  then have le: "(length text + 1999) div 2000 \<le> j" by simp
  then have "\<not> 2000 * j < length text" by linarith
  then show ?case using le by (simp add: textPages.simps[of "text" "2000 * j"])
next
  case (Suc d)
  then have lt: "j < (length text + 1999) div 2000" by simp
  then have i: "2000 * j < length text" by linarith
  have d: "d = (length text + 1999) div 2000 - Suc j" using Suc(2) by simp
  have sub: "substring text (2000 * j) (2000 * j + 2000) = take 2000 (drop (2000 * j) text)"
    using i by (simp add: substring_chunk)
  have s0: "textPages text (2000 * j) pages =
      textPages text (2000 * j + 2000) (pages @ [substring text (2000 * j) (2000 * j + 2000)])"
    using i by (subst textPages.simps) (simp only: if_True)
  have sj: "2000 * Suc j = 2000 * j + 2000" by simp
  have step: "textPages text (2000 * j) pages =
      textPages text (2000 * Suc j) (pages @ [take 2000 (drop (2000 * j) text)])"
    by (simp only: s0 sub sj)
  show ?case
    unfolding step Suc(1)[OF d] using lt by (simp add: upt_conv_Cons)
qed

lemma textPages_0:
  "textPages text 0 [] =
     map (\<lambda>m. take 2000 (drop (2000 * m) text)) [0..<(length text + 1999) div 2000]"
  using textPages_chunks[where j = 0 and pages = "[]"] by simp

lemma pdfTextPages_nonempty:
  "text \<noteq> [] \<Longrightarrow>
   pdfTextPages text = map (\<lambda>m. take 2000 (drop (2000 * m) text)) [0..<(length text + 1999) div 2000]"
proof -
  assume "text \<noteq> []"
  then have "0 < length text" by simp
  then have "2000 \<le> length text + 1999" by linarith
  then have "0 < (length text + 1999) div 2000" by (simp only: div_greater_zero_iff) simp
  then show ?thesis by (simp add: pdfTextPages_def textPages_0 Let_def)
qed

lemma pdfTextPages_empty: "pdfTextPages [] = [js ''Empty PDF or could not extract text'']"
  by (simp add: pdfTextPages_def textPages_0 Let_def)

lemma length_pdfTextPages: "length (pdfTextPages text) = max 1 ((length text + 1999) div 2000)"
proof (cases "text = []")
  case True then show ?thesis by (simp add: pdfTextPages_empty)
next
  case False
  then have "0 < length text" by simp
  then have "2000 \<le> length text + 1999" by linarith
  then have "0 < (length text + 1999) div 2000" by (simp only: div_greater_zero_iff) simp
  then show ?thesis using False by (simp add: pdfTextPages_nonempty)
qed

lemma concat_chunks:
  "concat (map (\<lambda>m. take k (drop (k * m) s)) [0..<n]) = take (k * n) s"
proof (induction n)
  case 0
  show ?case by simp
next
  case (Suc n)
  have "take (k * n) s @ take k (drop (k * n) s) = take (k * n + k) s"
    by (simp add: take_add)
  then show ?case using Suc by (simp add: add.commute)
qed

lemma concat_pdfTextPages: "text \<noteq> [] \<Longrightarrow> concat (pdfTextPages text) = text"
proof -
  assume ne: "text \<noteq> []"
  have "length text \<le> 2000 * ((length text + 1999) div 2000)" by linarith
  then show ?thesis using ne by (simp add: pdfTextPages_nonempty concat_chunks)
qed

lemma nth_pdfTextPages:
  "text \<noteq> [] \<Longrightarrow> i < length (pdfTextPages text) \<Longrightarrow>
   pdfTextPages text ! i = take 2000 (drop (2000 * i) text)"
  by (simp add: pdfTextPages_nonempty)

lemma textImages_success:
  assumes "\<forall>i. i0 \<le> i \<and> i < length pages \<longrightarrow>
             fst (createTextImage sharp (pages ! i) (i + 1) (length pages)) = Inr (img i)"
  shows "fst (textImages sharp pages i0 images calls) = Inr (images @ map img [i0..<length pages])"
  using assms
proof (induction "length pages - i0" arbitrary: i0 images calls)
  case 0
  then have "\<not> i0 < length pages" by simp
  then show ?case by (simp add: textImages.simps[of sharp pages i0])
next
  case (Suc d)
  then have lt: "i0 < length pages" by simp
  have d: "d = length pages - Suc i0" using Suc(2) by simp
  obtain cs where c: "createTextImage sharp (pages ! i0) (i0 + 1) (length pages) = (Inr (img i0), cs)"
    using Suc(3) lt by (metis le_refl prod.collapse)
  have ih: "fst (textImages sharp pages (Suc i0) (images @ [img i0]) (calls @ cs))
      = Inr ((images @ [img i0]) @ map img [Suc i0..<length pages])"
    by (rule Suc(1)[OF d]) (use Suc(3) in auto)
  show ?case using lt c ih by (simp add: textImages.simps[of sharp pages i0] upt_conv_Cons)
qed

lemma processPDFWithTextExtraction_success:
  assumes "env_readFileSync env pdfPath = Inr dataBuffer"
    and "env_pdfParse env dataBuffer = Inr pdfData_text"
    and "pages = pdfTextPages (case pdfData_text of None \<Rightarrow> [] | Some t \<Rightarrow> t)"
    and "\<forall>i. i < length pages \<longrightarrow>
           fst (createTextImage (env_sharp env) (pages ! i) (i + 1) (length pages)) = Inr (img i)"
  shows "fst (processPDFWithTextExtraction env pdfPath) = Inr (map img [0..<length pages])"
proof -
  have "fst (textImages (env_sharp env) pages 0 [] [Call_readFileSync, Call_pdfParse])
      = Inr ([] @ map img [0..<length pages])"
    by (rule textImages_success) (use assms(4) in simp)
  then obtain calls where
    "textImages (env_sharp env) pages 0 [] [Call_readFileSync, Call_pdfParse]
      = (Inr (map img [0..<length pages]), calls)"
    by (metis append_Nil prod.collapse)
  then show ?thesis
    using assms(1,2,3) by (simp add: processPDFWithTextExtraction_def Let_def)
qed

lemma processPDF_falls_back:
  assumes "env_pdf2pic env = None
     \<or> (\<exists>fromPath e. env_pdf2pic env = Some fromPath
          \<and> fst (processPDFWithPdf2Pic (env_sharp env) fromPath pdfPath) = Inl e)"
  shows "fst (processPDF env pdfPath) = fst (processPDFWithTextExtraction env pdfPath)"
  using assms
  by (auto simp: processPDF_def split: option.splits prod.splits sum.splits)


lemma pdf2picLoop_exit:
  "\<not> (h \<and> p \<le> 20) \<Longrightarrow> pdf2picLoop convert sharp images p h calls = (images, calls)"
  by (subst pdf2picLoop.simps) (rule if_not_P)

lemma pdf2picLoop_enter:
  "h \<Longrightarrow> p \<le> 20 \<Longrightarrow>
   pdf2picLoop convert sharp images p h calls =
     (case convertPage convert sharp p of
        (Inr (Some optimizedBuffer), cs) \<Rightarrow>
          pdf2picLoop convert sharp (images @ [optimizedBuffer]) (p + 1) True (calls @ cs)
      | (Inr None, cs) \<Rightarrow> pdf2picLoop convert sharp images p False (calls @ cs)
      | (Inl err, cs) \<Rightarrow> pdf2picLoop convert sharp images p False (calls @ cs))"
  by (subst pdf2picLoop.simps) simp


lemma pdf2picLoop_stopped: "pdf2picLoop convert sharp images p False calls = (images, calls)"
  by (rule pdf2picLoop_exit) simp


lemma pdf2picLoop_page_fails:
  assumes "\<forall>b. fst (convertPage convert sharp p) \<noteq> Inr (Some b)"
  shows "fst (pdf2picLoop convert sharp images p h calls) = images"
proof (cases "h \<and> p \<le> 20")
  case False
  show ?thesis using pdf2picLoop_exit[OF False, of convert sharp images calls] by simp
next
  case True
  obtain r cs where rc: "convertPage convert sharp p = (r, cs)" by (cases "convertPage convert sharp p")
  then have nb: "\<forall>b. r \<noteq> Inr (Some b)" using assms by simp
  show ?thesis
  proof (cases r)
    case (Inl err)
    then show ?thesis using True rc by (simp add: pdf2picLoop_enter pdf2picLoop_stopped)
  next
    case (Inr o1)
    then have "o1 = None" using nb by (cases o1) auto
    then show ?thesis using True rc Inr by (simp add: pdf2picLoop_enter pdf2picLoop_stopped)
  qed
qed


lemma pdf2picLoop_length:
  "length (fst (pdf2picLoop convert sharp images p h calls)) \<le> length images + (21 - p)"
proof (induction convert sharp images p h calls rule: pdf2picLoop.induct)
  case (1 convert sharp images pageNum hasMorePages calls)
  show ?case
  proof (cases "hasMorePages \<and> pageNum \<le> 20")
    case False
    show ?thesis using pdf2picLoop_exit[OF False, of convert sharp images calls] by simp
  next
    case True
    obtain r cs where rc: "convertPage convert sharp pageNum = (r, cs)" by (cases "convertPage convert sharp pageNum")
    show ?thesis
    proof (cases r)
      case (Inl err)
      then show ?thesis using True rc
        by (auto simp: pdf2picLoop_enter pdf2picLoop_stopped)
    next
      case (Inr o1)
      show ?thesis
      proof (cases o1)
        case None
        then show ?thesis using True rc Inr
          by (auto simp: pdf2picLoop_enter pdf2picLoop_stopped)
      next
        case (Some b)
        have "length (fst (pdf2picLoop convert sharp (images @ [b]) (pageNum + 1) True (calls @ cs)))
            \<le> length (images @ [b]) + (21 - (pageNum + 1))"
          using 1(3)[OF True rc[symmetric] Inr Some] .
        then show ?thesis using True rc Inr Some
          by (auto simp: pdf2picLoop_enter)
      qed
    qed
  qed
qed

lemma createTextImage_sharp_example:
  "createTextImage sharp_example t p n =
     (Inr [0xFF, 0xD8, of_nat (length (textImageSvg (sanitizedText t) p n))], [Call_sharp])"
  by (simp add: createTextImage_def sharp_example_def)


lemma processPDFWithPdf2Pic_at_most_20:
  "fst (processPDFWithPdf2Pic sharp fromPath pdfPath) = Inr images \<Longrightarrow> length images \<le> 20"
proof (cases "fromPath pdfPath")
  case (Inl err)
  assume "fst (processPDFWithPdf2Pic sharp fromPath pdfPath) = Inr images"
  then show ?thesis using Inl by (simp add: processPDFWithPdf2Pic_def)
next
  case (Inr convert)
  assume r: "fst (processPDFWithPdf2Pic sharp fromPath pdfPath) = Inr images"
  obtain imgs calls where l: "pdf2picLoop convert sharp [] 1 True [Call_fromPath] = (imgs, calls)"
    by (cases "pdf2picLoop convert sharp [] 1 True [Call_fromPath]")
  then have "images = imgs" using r Inr by (simp add: processPDFWithPdf2Pic_def split: if_splits)
  moreover have "length (fst (pdf2picLoop convert sharp [] 1 True [Call_fromPath])) \<le> length ([]::buffer list) + (21 - 1)"
    by (rule pdf2picLoop_length)
  ultimately show ?thesis using l by simp
qed




text \<open>
  When pdf2pic is not loaded, or its path yields no page, and the text extraction and
  the rendering of every page succeed, processPDF returns one image per page of text:
  the length of the text divided by 2000, rounded up, and one page when the text is
  empty. Page i is the i-th run of 2000 code units of the text.
\<close>

lemma tier2_pages_when_rendered:
  assumes "env_pdf2pic env = None
     \<or> (\<exists>fromPath e. env_pdf2pic env = Some fromPath
          \<and> fst (processPDFWithPdf2Pic (env_sharp env) fromPath pdfPath) = Inl e)"
    and "env_readFileSync env pdfPath = Inr dataBuffer"
    and "env_pdfParse env dataBuffer = Inr pdfData_text"
    and "extracted = (case pdfData_text of None \<Rightarrow> [] | Some t \<Rightarrow> t)"
    and "\<forall>i. i < length (pdfTextPages extracted) \<longrightarrow>
           fst (createTextImage (env_sharp env) (pdfTextPages extracted ! i) (i + 1)
                  (length (pdfTextPages extracted))) = Inr (img i)"
  shows "fst (processPDF env pdfPath) = Inr (map img [0..<length (pdfTextPages extracted)])
       \<and> length (map img [0..<length (pdfTextPages extracted)])
           = max 1 ((length extracted + 1999) div 2000)
       \<and> (extracted \<noteq> [] \<longrightarrow>
            concat (pdfTextPages extracted) = extracted
            \<and> (\<forall>i. i < length (pdfTextPages extracted) \<longrightarrow>
                 pdfTextPages extracted ! i = take 2000 (drop (2000 * i) extracted)))
       \<and> (extracted = [] \<longrightarrow>
            pdfTextPages extracted = [js ''Empty PDF or could not extract text''])"
proof -
  have "fst (processPDF env pdfPath) = fst (processPDFWithTextExtraction env pdfPath)"
    using assms(1) by (rule processPDF_falls_back)
  moreover have "fst (processPDFWithTextExtraction env pdfPath)
      = Inr (map img [0..<length (pdfTextPages extracted)])"
    using assms(2,3) _ assms(5)
    by (rule processPDFWithTextExtraction_success) (simp add: assms(4))
  ultimately have a: "fst (processPDF env pdfPath) = Inr (map img [0..<length (pdfTextPages extracted)])"
    by simp
  have b: "length (map img [0..<length (pdfTextPages extracted)])
           = max 1 ((length extracted + 1999) div 2000)"
    by (simp add: length_pdfTextPages)
  have c: "extracted \<noteq> [] \<longrightarrow>
            concat (pdfTextPages extracted) = extracted
            \<and> (\<forall>i. i < length (pdfTextPages extracted) \<longrightarrow>
                 pdfTextPages extracted ! i = take 2000 (drop (2000 * i) extracted))"
    using concat_pdfTextPages nth_pdfTextPages by blast
  have d: "extracted = [] \<longrightarrow>
            pdfTextPages extracted = [js ''Empty PDF or could not extract text'']"
    using pdfTextPages_empty by simp
  from a b c d show ?thesis by blast
qed

text \<open>When the first page already fails, the pdf2pic path throws and the fallback runs.\<close>

lemma tier1_zero_pages:
  assumes "fromPath pdfPath = Inr convert"
    and "\<forall>b. fst (convertPage convert sharp 1) \<noteq> Inr (Some b)"
  shows "fst (processPDFWithPdf2Pic sharp fromPath pdfPath)
     = Inl (Error (js ''No pages could be converted from PDF using pdf2pic''))"
proof -
  have "fst (pdf2picLoop convert sharp [] 1 True [Call_fromPath]) = []"
    using assms(2) by (rule pdf2picLoop_page_fails)
  then show ?thesis
    using assms(1)
    by (cases "pdf2picLoop convert sharp [] 1 True [Call_fromPath]")
       (simp add: processPDFWithPdf2Pic_def)
qed

lemma tier1_failing_example:
  "fst (processPDFWithPdf2Pic sharp_example fromPath_failing p)
     = Inl (Error (js ''No pages could be converted from PDF using pdf2pic''))"
  by (rule tier1_zero_pages[where convert = convert_failing])
     (simp_all add: fromPath_failing_def convertPage_def convert_failing_def)

lemma env_example_simps:
  "env_pdf2pic (env_example f s t) = f"
  "env_sharp (env_example f s t) = s"
  "env_readFileSync (env_example f s t) p = Inr [0x25, 0x50, 0x44, 0x46]"
  "env_pdfParse (env_example f s t) b = Inr (Some t)"
  by (simp_all add: env_example_def readFileSync_example_def)

lemma tier2_example:
  assumes "f = None \<or> f = Some fromPath_failing"
  shows "\<exists>images. fst (processPDF (env_example f sharp_example t) p) = Inr images
           \<and> length images = max 1 ((length t + 1999) div 2000)"
proof -
  let ?env = "env_example f sharp_example t"
  let ?img = "\<lambda>i. [0xFF, 0xD8, of_nat (length (textImageSvg (sanitizedText (pdfTextPages t ! i))
                  (i + 1) (length (pdfTextPages t))))] :: buffer"
  have 1: "env_pdf2pic ?env = None
     \<or> (\<exists>fromPath e. env_pdf2pic ?env = Some fromPath
          \<and> fst (processPDFWithPdf2Pic (env_sharp ?env) fromPath p) = Inl e)"
    using assms tier1_failing_example by (auto simp: env_example_simps)
  have "fst (processPDF ?env p) = fst (processPDFWithTextExtraction ?env p)"
    using 1 by (rule processPDF_falls_back)
  moreover have "fst (processPDFWithTextExtraction ?env p)
      = Inr (map ?img [0..<length (pdfTextPages t)])"
    by (rule processPDFWithTextExtraction_success[where dataBuffer = "[0x25, 0x50, 0x44, 0x46]"
          and pdfData_text = "Some t"])
       (simp_all add: env_example_simps createTextImage_sharp_example)
  ultimately show ?thesis by (simp add: length_pdfTextPages)
qed

text \<open>
  C2. The fallback has no page ceiling: without pdf2pic, a PDF whose extracted text
  has 40001 code units gives 21 pages. The loop of processPDFWithPdf2Pic stops at 20
  pages (lemma \<open>processPDFWithPdf2Pic_at_most_20\<close>).
\<close>

theorem tier2_exceeds_page_ceiling:
  "\<exists>images. fst (processFile (env_example None sharp_example (replicate 40001 0x61))
                 (js ''uploads/files-1.pdf'') (js ''.pdf'')) = Inr images
            \<and> length images = 21"
proof -
  have "max 1 ((length (replicate 40001 (0x61 :: 16 word)) + 1999) div 2000) = (21::nat)" by simp
  then show ?thesis
    using tier2_example [of None "replicate 40001 0x61" "js ''uploads/files-1.pdf''"]
    by (simp add: processFile_def)
qed

lemma replaceAll_js_absent: "c \<notin> set s \<Longrightarrow> replaceAll_js c rep s = s"
  by (induction s) (auto simp: replaceAll_js_def)

lemma substring_0: "substring s 0 n = take n s"
  by (simp add: substring_def Let_def min_def max_def)

lemma js_amp: "js ''&amp;'' = [0x26, 0x61, 0x6D, 0x70, 0x3B]"
  by (simp add: js_def)

text \<open>
  The cut at 3000 code units comes after the escaping, so it can fall inside an escaped
  character: the document handed to the rasteriser then holds an entity without its
  semicolon.
\<close>

lemma sanitizedText_cuts_entity:
  "sanitizedText (0x61 # replicate 600 0x26)
     = 0x61 # concat (replicate 599 (js ''&amp;'')) @ js ''&amp''"
proof -
  let ?amp = "js ''&amp;''"
  let ?s = "0x61 # concat (replicate 600 ?amp)"
  have f1: "removeAll_js controlChars (0x61 # replicate 600 0x26) = 0x61 # replicate 600 0x26"
    by (simp add: removeAll_js_def controlChars_def)
  have f2: "removeAll_js (\<lambda>c. c = 0xFFFD) (0x61 # replicate 600 0x26) = 0x61 # replicate 600 0x26"
    by (simp add: removeAll_js_def)
  have f3: "removeAll_js controlChars2 (0x61 # replicate 600 0x26) = 0x61 # replicate 600 0x26"
    by (simp add: removeAll_js_def controlChars2_def)
  have r: "replaceAll_js 0x26 ?amp (0x61 # replicate 600 0x26) = ?s"
    by (simp add: replaceAll_js_def)
  have st: "set ?s = {0x61, 0x26, 0x6D, 0x70, 0x3B}"
    by (auto simp: js_amp)
  have n: "0x3C \<notin> set ?s" "0x3E \<notin> set ?s" "0x22 \<notin> set ?s" "0x27 \<notin> set ?s"
    unfolding st by simp_all
  have k: "replaceAll_js 0x27 (js ''&apos;'') (replaceAll_js 0x22 (js ''&quot;'')
            (replaceAll_js 0x3E (js ''&gt;'') (replaceAll_js 0x3C (js ''&lt;'') ?s))) = ?s"
    by (simp only: replaceAll_js_absent[OF n(1)] replaceAll_js_absent[OF n(2)]
        replaceAll_js_absent[OF n(3)] replaceAll_js_absent[OF n(4)])
  have "replicate 600 ?amp = replicate 599 ?amp @ [?amp]"
    by (metis replicate_append_same replicate_Suc eval_nat_numeral(3) Suc_numeral semiring_norm(5) semiring_norm(8) semiring_norm(2))
  then have c: "concat (replicate 600 ?amp) = concat (replicate 599 ?amp) @ ?amp" by simp
  have l: "length (concat (replicate 599 ?amp)) = 2995"
    by (simp add: length_concat js_amp sum_list_replicate)
  have "take 3000 ?s = 0x61 # take 2999 (concat (replicate 599 ?amp) @ ?amp)"
    by (simp only: c) simp
  also have "take 2999 (concat (replicate 599 ?amp) @ ?amp) = concat (replicate 599 ?amp) @ take 4 ?amp"
    by (simp add: l)
  also have "take 4 ?amp = js ''&amp''" by (simp add: js_def)
  finally have t: "take 3000 ?s = 0x61 # concat (replicate 599 ?amp) @ js ''&amp''" .
  show ?thesis
    unfolding sanitizedText_def f1 f2 f3 r k substring_0 by (rule t)
qed


subsection \<open>Rendering text that is not sanitised\<close>

lemma startsWith_append: "startsWith s p \<Longrightarrow> startsWith (s @ b) p"
  unfolding startsWith_prefix by (rule prefix_prefix)

lemma entityReferences_append:
  "entityReferences a \<Longrightarrow> entityReferences b \<Longrightarrow> entityReferences (a @ b)"
  by (induction a) (auto simp: startsWith_append)

lemma entityReferences_suffix: "entityReferences (a @ b) \<Longrightarrow> entityReferences b"
  by (induction a) auto

lemma entityReferences_no_ampersand: "list_all (\<lambda>c. c \<noteq> 0x26) s \<Longrightarrow> entityReferences s"
  by (induction s) auto

lemma digit_ok: "d < 10 \<Longrightarrow> xmlChar (of_nat (48 + d)) \<and> (of_nat (48 + d) :: 16 word) \<noteq> 0x26"
proof -
  assume "d < 10"
  then have "d = 0 \<or> d = 1 \<or> d = 2 \<or> d = 3 \<or> d = 4 \<or> d = 5 \<or> d = 6 \<or> d = 7 \<or> d = 8 \<or> d = 9"
    by presburger
  then show ?thesis by (elim disjE) (simp_all add: xmlChar_def)
qed

lemma toString_nat_ok: "list_all (\<lambda>c. xmlChar c \<and> c \<noteq> 0x26) (toString_nat n)"
proof (induction n rule: toString_nat.induct)
  case (1 n)
  show ?case
  proof (cases "n < 10")
    case True
    then show ?thesis using digit_ok[of n] by (subst toString_nat.simps) simp
  next
    case False
    have "n mod 10 < 10" by simp
    then show ?thesis using False 1 digit_ok[of "n mod 10"]
      by (subst toString_nat.simps) simp
  qed
qed

lemma textImageSvg_before_ok:
  "list_all (\<lambda>c. xmlChar c \<and> c \<noteq> 0x26) (textImageSvg_before p n)"
  unfolding textImageSvg_before_def Let_def list_all_append
  by (simp only: toString_nat_ok simp_thms) (simp add: nl_def js_def xmlChar_def)

lemma textImageSvg_after_ok:
  "list_all (\<lambda>c. xmlChar c \<and> c \<noteq> 0x26) textImageSvg_after"
  unfolding textImageSvg_after_def Let_def list_all_append
  by (simp only: toString_nat_ok simp_thms) (simp add: nl_def js_def xmlChar_def)

lemma list_all_xmlChar:
  "list_all (\<lambda>c. xmlChar c \<and> c \<noteq> 0x26) s \<Longrightarrow> list_all xmlChar s"
  by (simp add: list_all_iff)

lemma list_all_no_ampersand:
  "list_all (\<lambda>c. xmlChar c \<and> c \<noteq> 0x26) s \<Longrightarrow> list_all (\<lambda>c. c \<noteq> 0x26) s"
  by (simp add: list_all_iff)

lemma createTextImage_sharp_xml_accepts:
  assumes "list_all xmlChar (sanitizedText t)" and "entityReferences (sanitizedText t)"
  shows "createTextImage sharp_xml t p n =
     (Inr [0xFF, 0xD8, of_nat (length (textImageSvg (sanitizedText t) p n))], [Call_sharp])"
proof -
  have 1: "list_all xmlChar (textImageSvg (sanitizedText t) p n)"
    using assms(1) list_all_xmlChar[OF textImageSvg_before_ok] list_all_xmlChar[OF textImageSvg_after_ok]
    by (simp add: textImageSvg_def)
  have "entityReferences (textImageSvg_before p n)" "entityReferences textImageSvg_after"
    using textImageSvg_before_ok textImageSvg_after_ok
    by (auto intro: entityReferences_no_ampersand list_all_no_ampersand)
  then have 2: "entityReferences (textImageSvg (sanitizedText t) p n)"
    using assms(2) by (simp add: textImageSvg_def entityReferences_append)
  show ?thesis using 1 2 by (simp add: createTextImage_def sharp_xml_def)
qed

lemma createTextImage_sharp_xml_rejects_char:
  assumes "\<not> list_all xmlChar (sanitizedText t)"
  shows "createTextImage sharp_xml t p n =
     (Inl (Error (js ''Failed to create text image'')), [Call_sharp])"
proof -
  have "\<not> list_all xmlChar (textImageSvg (sanitizedText t) p n)"
    using assms by (simp add: textImageSvg_def)
  then show ?thesis by (simp add: createTextImage_def sharp_xml_def)
qed

lemma createTextImage_sharp_xml_rejects_entity:
  assumes "\<not> entityReferences (sanitizedText t @ textImageSvg_after)"
  shows "createTextImage sharp_xml t p n =
     (Inl (Error (js ''Failed to create text image'')), [Call_sharp])"
proof -
  have "\<not> entityReferences (textImageSvg (sanitizedText t) p n)"
    using assms entityReferences_suffix[of "textImageSvg_before p n" "sanitizedText t @ textImageSvg_after"]
    by (auto simp: textImageSvg_def)
  then show ?thesis by (simp add: createTextImage_def sharp_xml_def)
qed

lemma sanitizedText_keeps_FFFE: "sanitizedText [0x61, 0xFFFE, 0x62] = [0x61, 0xFFFE, 0x62]"
  by code_simp

lemma cut_entity_not_closed:
  "\<not> entityReferences (sanitizedText (0x61 # replicate 600 0x26) @ textImageSvg_after)"
proof
  assume "entityReferences (sanitizedText (0x61 # replicate 600 0x26) @ textImageSvg_after)"
  then have "entityReferences ((0x61 # concat (replicate 599 (js ''&amp;''))) @ (js ''&amp'' @ textImageSvg_after))"
    by (simp add: sanitizedText_cuts_entity)
  then have "entityReferences (js ''&amp'' @ textImageSvg_after)"
    by (rule entityReferences_suffix)
  then show False
    by (simp add: textImageSvg_after_def Let_def nl_def js_def startsWith_def)
qed

text \<open>
  C5. Rendering fails on text that the sanitiser lets through: it keeps U+FFFE, which
  is not a character of XML, and it cuts the escaped text at 3000 code units, here
  inside an entity. For both texts the rasteriser refuses the document and
  createTextImage throws.
\<close>

theorem createTextImage_fails_on_kept_text:
  "fst (createTextImage sharp_xml [0x61, 0xFFFE, 0x62] 1 1)
     = Inl (Error (js ''Failed to create text image''))
   \<and> fst (createTextImage sharp_xml (0x61 # replicate 600 0x26) 1 1)
     = Inl (Error (js ''Failed to create text image''))"
proof -
  have "\<not> list_all xmlChar (sanitizedText [0x61, 0xFFFE, 0x62])"
    by (simp add: sanitizedText_keeps_FFFE xmlChar_def)
  then have a: "fst (createTextImage sharp_xml [0x61, 0xFFFE, 0x62] 1 1)
     = Inl (Error (js ''Failed to create text image''))"
    by (simp add: createTextImage_sharp_xml_rejects_char)
  have b: "fst (createTextImage sharp_xml (0x61 # replicate 600 0x26) 1 1)
     = Inl (Error (js ''Failed to create text image''))"
    using cut_entity_not_closed by (simp add: createTextImage_sharp_xml_rejects_entity)
  from a b show ?thesis by simp
qed

text \<open>
  The same rasteriser renders the empty string, a blank string, the placeholder and a
  text whose special characters are escaped.
\<close>

lemma createTextImage_renders_plain_text:
  "fst (createTextImage sharp_xml [] 1 1)
     = Inr [0xFF, 0xD8, of_nat (length (textImageSvg [] 1 1))]"
  "fst (createTextImage sharp_xml (js ''   '') 1 1)
     = Inr [0xFF, 0xD8, of_nat (length (textImageSvg (js ''   '') 1 1))]"
  "fst (createTextImage sharp_xml (js ''Empty PDF or could not extract text'') 1 1)
     = Inr [0xFF, 0xD8, of_nat (length (textImageSvg (js ''Empty PDF or could not extract text'') 1 1))]"
  "fst (createTextImage sharp_xml (js ''1 < 2 & 2 > 1'') 1 1)
     = Inr [0xFF, 0xD8, of_nat (length (textImageSvg (js ''1 &lt; 2 &amp; 2 &gt; 1'') 1 1))]"
proof -
  have s1: "sanitizedText [] = []" by code_simp
  have s2: "sanitizedText (js ''   '') = js ''   ''" by code_simp
  have s3: "sanitizedText (js ''Empty PDF or could not extract text'')
      = js ''Empty PDF or could not extract text''" by code_simp
  have s4: "sanitizedText (js ''1 < 2 & 2 > 1'') = js ''1 &lt; 2 &amp; 2 &gt; 1''" by code_simp
  have x: "list_all xmlChar []" "list_all xmlChar (js ''   '')"
    "list_all xmlChar (js ''Empty PDF or could not extract text'')"
    "list_all xmlChar (js ''1 &lt; 2 &amp; 2 &gt; 1'')"
    by code_simp+
  have e: "entityReferences []" "entityReferences (js ''   '')"
    "entityReferences (js ''Empty PDF or could not extract text'')"
    "entityReferences (js ''1 &lt; 2 &amp; 2 &gt; 1'')"
    by code_simp+
  show "fst (createTextImage sharp_xml [] 1 1)
     = Inr [0xFF, 0xD8, of_nat (length (textImageSvg [] 1 1))]"
    using createTextImage_sharp_xml_accepts[of "[]" 1 1] x(1) e(1) by (simp add: s1)
  show "fst (createTextImage sharp_xml (js ''   '') 1 1)
     = Inr [0xFF, 0xD8, of_nat (length (textImageSvg (js ''   '') 1 1))]"
    using createTextImage_sharp_xml_accepts[of "js ''   ''" 1 1] x(2) e(2) by (simp add: s2)
  show "fst (createTextImage sharp_xml (js ''Empty PDF or could not extract text'') 1 1)
     = Inr [0xFF, 0xD8, of_nat (length (textImageSvg (js ''Empty PDF or could not extract text'') 1 1))]"
    using createTextImage_sharp_xml_accepts[of "js ''Empty PDF or could not extract text''" 1 1]
      x(3) e(3) by (simp add: s3)
  show "fst (createTextImage sharp_xml (js ''1 < 2 & 2 > 1'') 1 1)
     = Inr [0xFF, 0xD8, of_nat (length (textImageSvg (js ''1 &lt; 2 &amp; 2 &gt; 1'') 1 1))]"
    using createTextImage_sharp_xml_accepts[of "js ''1 < 2 & 2 > 1''" 1 1] x(4) e(4)
    by (simp add: s4)
qed

lemma pdfTextPages_one_page: "t \<noteq> [] \<Longrightarrow> length t \<le> 2000 \<Longrightarrow> pdfTextPages t = [t]"
proof -
  assume ne: "t \<noteq> []" and le: "length t \<le> 2000"
  then have "Suc 0 \<le> length t" by (cases t) simp_all
  then have "(length t + 1999) div 2000 = 1" using le by (intro div_nat_eqI) simp_all
  then show ?thesis using ne le by (simp add: pdfTextPages_nonempty)
qed

lemma tier2_one_page_fails:
  assumes "t \<noteq> []" and "length t \<le> 2000"
    and "createTextImage sharp t 1 1 = (Inl (Error (js ''Failed to create text image'')), [Call_sharp])"
    and "f = None \<or> f = Some fromPath_failing"
  shows "fst (processPDF (env_example f sharp t) p)
     = Inl (ErrorFrom (js ''Failed to process PDF file: '') (Error (js ''Failed to create text image'')))"
proof -
  let ?env = "env_example f sharp t"
  have z: "fst (processPDFWithPdf2Pic sharp fromPath_failing p)
      = Inl (Error (js ''No pages could be converted from PDF using pdf2pic''))"
    by (rule tier1_zero_pages[where convert = convert_failing])
       (simp_all add: fromPath_failing_def convertPage_def convert_failing_def)
  have "env_pdf2pic ?env = None
     \<or> (\<exists>fromPath e. env_pdf2pic ?env = Some fromPath
          \<and> fst (processPDFWithPdf2Pic (env_sharp ?env) fromPath p) = Inl e)"
    using assms(4) z by (auto simp: env_example_simps)
  then have fb: "fst (processPDF ?env p) = fst (processPDFWithTextExtraction ?env p)"
    by (rule processPDF_falls_back)
  have "textImages sharp [t] 0 [] [Call_readFileSync, Call_pdfParse]
      = (Inl (Error (js ''Failed to create text image'')),
         [Call_readFileSync, Call_pdfParse, Call_sharp])"
    using assms(3) by (subst textImages.simps) simp
  then have "fst (processPDFWithTextExtraction ?env p)
     = Inl (ErrorFrom (js ''Failed to process PDF file: '') (Error (js ''Failed to create text image'')))"
    using assms(1,2)
    by (simp add: processPDFWithTextExtraction_def env_example_simps pdfTextPages_one_page)
  then show ?thesis using fb by simp
qed

text \<open>
  C4. With pdf2pic not loaded, or yielding no page, the fallback returns no page for
  such a text: each of the two texts below is one page of at most 2000 code units,
  its rendering throws, and processPDF fails.
\<close>

theorem tier2_fails_on_kept_text:
  "fst (processPDF (env_example None sharp_xml [0x61, 0xFFFE, 0x62]) (js ''uploads/exam.pdf''))
     = Inl (ErrorFrom (js ''Failed to process PDF file: '')
              (Error (js ''Failed to create text image'')))
   \<and> fst (processPDF (env_example (Some fromPath_failing) sharp_xml (0x61 # replicate 600 0x26))
            (js ''uploads/exam.pdf''))
     = Inl (ErrorFrom (js ''Failed to process PDF file: '')
              (Error (js ''Failed to create text image'')))"
proof -
  have "\<not> list_all xmlChar (sanitizedText [0x61, 0xFFFE, 0x62])"
    by (simp add: sanitizedText_keeps_FFFE xmlChar_def)
  then have 1: "createTextImage sharp_xml [0x61, 0xFFFE, 0x62] 1 1
      = (Inl (Error (js ''Failed to create text image'')), [Call_sharp])"
    by (rule createTextImage_sharp_xml_rejects_char)
  have 2: "createTextImage sharp_xml (0x61 # replicate 600 0x26) 1 1
      = (Inl (Error (js ''Failed to create text image'')), [Call_sharp])"
    using cut_entity_not_closed by (rule createTextImage_sharp_xml_rejects_entity)
  have a: "fst (processPDF (env_example None sharp_xml [0x61, 0xFFFE, 0x62]) (js ''uploads/exam.pdf''))
     = Inl (ErrorFrom (js ''Failed to process PDF file: '')
              (Error (js ''Failed to create text image'')))"
    by (rule tier2_one_page_fails[OF _ _ 1]) simp_all
  have b: "fst (processPDF (env_example (Some fromPath_failing) sharp_xml (0x61 # replicate 600 0x26))
            (js ''uploads/exam.pdf''))
     = Inl (ErrorFrom (js ''Failed to process PDF file: '')
              (Error (js ''Failed to create text image'')))"
    by (rule tier2_one_page_fails[OF _ _ 2]) simp_all
  from a b show ?thesis by simp
qed

lemma tier2_renders_plain_text:
  "fst (processPDF (env_example None sharp_xml (js ''1 < 2 & 2 > 1'')) (js ''uploads/exam.pdf''))
     = Inr [[0xFF, 0xD8, of_nat (length (textImageSvg (js ''1 &lt; 2 &amp; 2 &gt; 1'') 1 1))]]"
proof -
  let ?t = "js ''1 < 2 & 2 > 1''"
  let ?env = "env_example None sharp_xml ?t"
  let ?b = "[0xFF, 0xD8, of_nat (length (textImageSvg (js ''1 &lt; 2 &amp; 2 &gt; 1'') 1 1))] :: buffer"
  have pg: "pdfTextPages ?t = [?t]" by (rule pdfTextPages_one_page) (simp_all add: js_def)
  have c: "fst (createTextImage sharp_xml ?t (Suc 0) (Suc 0)) = Inr ?b"
    using createTextImage_renders_plain_text(4) by simp
  have "fst (processPDFWithTextExtraction ?env (js ''uploads/exam.pdf''))
      = Inr (map (\<lambda>i. ?b) [0..<length [?t]])"
    by (rule processPDFWithTextExtraction_success[where dataBuffer = "[0x25, 0x50, 0x44, 0x46]"
          and pdfData_text = "Some ?t"])
       (simp_all add: env_example_simps pg c)
  moreover have "fst (processPDF ?env (js ''uploads/exam.pdf''))
      = fst (processPDFWithTextExtraction ?env (js ''uploads/exam.pdf''))"
    by (rule processPDF_falls_back) (simp add: env_example_simps)
  ultimately show ?thesis by simp
qed

end
